theory Spec2Isabelle
  imports Main "HOL-Library.Sublist"
begin

section \<open>Token envelopes and configuration\<close>

text \<open>
  The wire message shared by the stream proxy, the Redis-NATS bridge and the SSE adapter
  (\<^verbatim>\<open>type TokenMessage struct\<close>). Go's \<^verbatim>\<open>int64\<close> fields are integers; the one place
  where the adapter does arithmetic on a client-chosen value (\<^verbatim>\<open>startSequence++\<close>) wraps
  around explicitly, see \<open>int64_wrap\<close>.
\<close>

record TokenMessage =
  ConversationID :: string
  Token :: string
  Sequence :: int
  Done :: bool
  Timestamp :: int

definition int64_wrap :: "int \<Rightarrow> int" where
  "int64_wrap x = (x + 2 ^ 63) mod 2 ^ 64 - 2 ^ 63"

text \<open>
  \<^verbatim>\<open>os.Getenv\<close> yields the empty string for an unset variable; \<^verbatim>\<open>getEnv\<close> falls back to the
  default for an unset and for an empty variable alike.
\<close>

definition Getenv :: "(string \<rightharpoonup> string) \<Rightarrow> string \<Rightarrow> string" where
  "Getenv environ key = (case environ key of None \<Rightarrow> [] | Some v \<Rightarrow> v)"

definition getEnv :: "(string \<rightharpoonup> string) \<Rightarrow> string \<Rightarrow> string \<Rightarrow> string" where
  "getEnv environ key defaultVal =
     (let val = Getenv environ key in if val \<noteq> [] then val else defaultVal)"

text \<open>The destination topic of a conversation: \<^verbatim>\<open>fmt.Sprintf("chat.%s.tokens", id)\<close>.\<close>

definition subject_of :: "string \<Rightarrow> string" where
  "subject_of conversationID = ''chat.'' @ conversationID @ ''.tokens''"


section \<open>The Redis-NATS bridge\<close>

text \<open>
  \<^verbatim>\<open>getEnvInt\<close> scans the variable with \<^verbatim>\<open>fmt.Sscanf(val, "%d", &i)\<close>; the scanner is a
  parameter (\<open>None\<close> when it reports an error, which leaves \<^verbatim>\<open>i\<close> at zero).
\<close>

definition getEnvInt ::
  "(string \<Rightarrow> int option) \<Rightarrow> (string \<rightharpoonup> string) \<Rightarrow> string \<Rightarrow> int \<Rightarrow> int" where
  "getEnvInt scan environ key defaultVal =
     (let val = Getenv environ key in
      if val \<noteq> [] then (case scan val of None \<Rightarrow> 0 | Some i \<Rightarrow> i) else defaultVal)"

record BridgeConfig =
  RedisAddr :: string
  RedisPassword :: string
  RedisDB :: int
  RedisChannel :: string
  BridgeNATSUrl :: string
  InstanceID :: string
  DedupeWindowSec :: int

text \<open>
  \<^verbatim>\<open>loadConfig\<close> of the bridge. The default instance id is built from the clock
  (\<^verbatim>\<open>time.Now().UnixNano()\<close>), passed in already formatted.
\<close>

definition bridge_loadConfig ::
  "(string \<Rightarrow> int option) \<Rightarrow> string \<Rightarrow> (string \<rightharpoonup> string) \<Rightarrow> BridgeConfig" where
  "bridge_loadConfig scan defaultInstance environ =
     \<lparr> RedisAddr = getEnv environ ''REDIS_ADDR'' ''localhost:6379'',
       RedisPassword = getEnv environ ''REDIS_PASSWORD'' [],
       RedisDB = getEnvInt scan environ ''REDIS_DB'' 0,
       RedisChannel = getEnv environ ''REDIS_CHANNEL'' ''llm:tokens:*'',
       BridgeNATSUrl = getEnv environ ''NATS_URL'' ''nats://localhost:4222'',
       InstanceID = getEnv environ ''INSTANCE_ID'' defaultInstance,
       DedupeWindowSec = getEnvInt scan environ ''DEDUPE_WINDOW_SEC'' 30 \<rparr>"

record RedisMsg =
  Channel :: string
  Payload :: string

text \<open>
  What one iteration of the bridge's \<^verbatim>\<open>select\<close> receives: the shutdown signal, or a value
  from the Redis channel (possibly \<^verbatim>\<open>nil\<close>) together with the outcome of the
  \<^verbatim>\<open>nc.Publish\<close> call that this iteration may make (\<open>True\<close>: it returns an error).
\<close>

datatype bridge_event = Quit | Msg "RedisMsg option" bool

record bridge_state =
  published :: "(string \<times> TokenMessage) list"
  msgCount :: nat

text \<open>
  The message loop of the bridge's \<^verbatim>\<open>main\<close>, run over the events it receives. The
  configuration is in scope of the loop, as in the source; \<^verbatim>\<open>json.Unmarshal\<close> is a
  parameter. A publication is recorded as the subject and the envelope that is
  re-marshalled.
\<close>

fun bridge_loop ::
  "BridgeConfig \<Rightarrow> (string \<Rightarrow> TokenMessage option) \<Rightarrow> bridge_event list \<Rightarrow> bridge_state
     \<Rightarrow> bridge_state" where
  "bridge_loop cfg unmarshal [] st = st"
| "bridge_loop cfg unmarshal (Quit # evs) st = st"
| "bridge_loop cfg unmarshal (Msg None publishErr # evs) st = bridge_loop cfg unmarshal evs st"
| "bridge_loop cfg unmarshal (Msg (Some msg) publishErr # evs) st =
     (case unmarshal (Payload msg) of
        None \<Rightarrow> bridge_loop cfg unmarshal evs st
      | Some token \<Rightarrow>
          if publishErr then bridge_loop cfg unmarshal evs st
          else bridge_loop cfg unmarshal evs
                 (st\<lparr> published := published st @ [(subject_of (ConversationID token), token)],
                      msgCount := msgCount st + 1 \<rparr>))"

definition bridge_init :: bridge_state where
  "bridge_init = \<lparr> published = [], msgCount = 0 \<rparr>"

text \<open>What the loop forwards from one event, ignoring the state.\<close>

fun forwarded :: "(string \<Rightarrow> TokenMessage option) \<Rightarrow> bridge_event \<Rightarrow> (string \<times> TokenMessage) list" where
  "forwarded unmarshal Quit = []"
| "forwarded unmarshal (Msg None publishErr) = []"
| "forwarded unmarshal (Msg (Some msg) publishErr) =
     (case unmarshal (Payload msg) of
        None \<Rightarrow> []
      | Some token \<Rightarrow> if publishErr then [] else [(subject_of (ConversationID token), token)])"

text \<open>A sample envelope and a decoder that recognises its payload, for concrete runs.\<close>

definition sample_token :: TokenMessage where
  "sample_token = \<lparr> ConversationID = ''c1'', Token = ''Hi'', Sequence = 1, Done = False,
                    Timestamp = 0 \<rparr>"

definition sample_unmarshal :: "string \<Rightarrow> TokenMessage option" where
  "sample_unmarshal payload = (if payload = ''tok1'' then Some sample_token else None)"

definition sample_bridge_cfg :: BridgeConfig where
  "sample_bridge_cfg = bridge_loadConfig (\<lambda>s. None) ''bridge-1'' Map.empty"

definition sample_msg :: RedisMsg where
  "sample_msg = \<lparr> Channel = ''chat.c1.tokens'', Payload = ''tok1'' \<rparr>"


section \<open>The SSE adapter\<close>

subsection \<open>Configuration and requests\<close>

record Config =
  NATSUrl :: string
  SSEPort :: string
  MetricsPort :: string
  InspectionMode :: string
  InspectionBuffer :: int
  InspectionEndpoint :: string
  LogLevel :: string
  LLMProxyURL :: string

text \<open>
  \<^verbatim>\<open>getDurationEnv\<close> parses the variable with \<^verbatim>\<open>time.ParseDuration(val + "ms")\<close>, a
  parameter; durations are in nanoseconds.
\<close>

definition getDurationEnv ::
  "(string \<Rightarrow> int option) \<Rightarrow> (string \<rightharpoonup> string) \<Rightarrow> string \<Rightarrow> int \<Rightarrow> int" where
  "getDurationEnv parseDuration environ key defaultVal =
     (let val = Getenv environ key in
      if val \<noteq> [] then (case parseDuration (val @ ''ms'') of Some d \<Rightarrow> d | None \<Rightarrow> defaultVal)
      else defaultVal)"

definition loadConfig :: "(string \<Rightarrow> int option) \<Rightarrow> (string \<rightharpoonup> string) \<Rightarrow> Config" where
  "loadConfig parseDuration environ =
     \<lparr> NATSUrl = getEnv environ ''NATS_URL'' ''nats://localhost:4222'',
       SSEPort = getEnv environ ''SSE_PORT'' ''8080'',
       MetricsPort = getEnv environ ''METRICS_PORT'' ''9090'',
       InspectionMode = getEnv environ ''INSPECTION_MODE'' ''disabled'',
       InspectionBuffer = getDurationEnv parseDuration environ ''INSPECTION_BUFFER_MS'' 150000000,
       InspectionEndpoint = getEnv environ ''INSPECTION_ENDPOINT'' [],
       LogLevel = getEnv environ ''LOG_LEVEL'' ''info'',
       LLMProxyURL = getEnv environ ''LLM_PROXY_URL'' [] \<rparr>"

text \<open>
  The parts of an HTTP request the handlers read. \<open>LastEventID\<close> is
  \<^verbatim>\<open>r.Header.Get("Last-Event-ID")\<close>, empty when the header is absent.
\<close>

record Request =
  Method :: string
  Path :: string
  LastEventID :: string
  Body :: string

record ChatRequest =
  Message :: string
  ReqConversationID :: string

text \<open>
  What the handlers obtain from their libraries during one call: the JSON decoder's result
  on the body, the identifier \<^verbatim>\<open>uuid.New()\<close> returns, whether the response writer is an
  \<^verbatim>\<open>http.Flusher\<close>, whether \<^verbatim>\<open>nc.Subscribe\<close> returns an error, and the result of
  \<^verbatim>\<open>fmt.Sscanf(s, "%d", &n)\<close> (\<open>None\<close>: an error, \<^verbatim>\<open>n\<close> is left unchanged).
\<close>

record Runtime =
  decodeBody :: "string \<Rightarrow> ChatRequest option"
  newUUID :: string
  isFlusher :: bool
  subscribeFails :: bool
  Sscanf_d :: "string \<Rightarrow> int option"

definition TrimPrefix :: "string \<Rightarrow> string \<Rightarrow> string" where
  "TrimPrefix s p = (if prefix p s then drop (length p) s else s)"

definition TrimSuffix :: "string \<Rightarrow> string \<Rightarrow> string" where
  "TrimSuffix s x = (if prefix (rev x) (rev s) then take (length s - length x) s else s)"

subsection \<open>What a handler does, in order\<close>

text \<open>
  The frames written to the response stream: a comment line, the \<^verbatim>\<open>connected\<close> event
  with the conversation id, a \<^verbatim>\<open>token\<close> event with its \<^verbatim>\<open>id:\<close> line and the marshalled
  envelope, and an \<^verbatim>\<open>error\<close> event with its message.
\<close>

datatype frame =
    Comment string
  | ConnectedEvent string
  | TokenEvent int TokenMessage
  | ErrorEvent string

text \<open>
  The observable actions of one handler call. \<open>Wr\<close> is a write of one frame followed by
  \<^verbatim>\<open>Flush\<close>; \<open>ConnTrack\<close> and \<open>ConnUntrack\<close> are the connection counter and gauges going
  up and (deferred) down; \<open>Unsubscribe\<close> is the deferred \<^verbatim>\<open>close(doneChan)\<close>,
  \<^verbatim>\<open>sub.Unsubscribe()\<close> and removal from the subscription table; \<open>GoForward\<close> starts the
  goroutine that posts the message to the LLM proxy. A log record is kept by its message,
  without its attributes; the \<^verbatim>\<open>messagesDelivered\<close> counter and the entry into the
  subscription table are not recorded.
\<close>

datatype effect =
    SetHeader string string
  | WriteHeader nat
  | HttpError string nat
  | DecodeBody
  | NewUUID
  | ConnTrack
  | ConnUntrack
  | Log string
  | Subscribe string
  | Unsubscribe
  | Wr frame
  | GoForward string string string

fun frames_of :: "effect list \<Rightarrow> frame list" where
  "frames_of [] = []"
| "frames_of (Wr f # es) = f # frames_of es"
| "frames_of (e # es) = frames_of es"

text \<open>
  The state of one connection: the two channels (\<^verbatim>\<open>msgChan\<close> of capacity 100,
  \<^verbatim>\<open>errChan\<close> of capacity 1), the readiness of the context's \<^verbatim>\<open>Done\<close> channel, of the
  keep-alive ticker's and of the first-token timer's channel, the loop's local
  \<^verbatim>\<open>receivedFirstToken\<close>, whether the subscription was established, whether the handler has
  returned (its deferred calls done, \<^verbatim>\<open>doneChan\<close> closed), the time in nanoseconds since the
  ticker and the timer were created, and the actions so far.
\<close>

record conn =
  msgChan :: "TokenMessage list"
  errChan :: "string list"
  ctxDone :: bool
  tickReady :: bool
  timerReady :: bool
  timerStopped :: bool
  receivedFirstToken :: bool
  subscribed :: bool
  returned :: bool
  elapsed :: nat
  trace :: "effect list"

definition fresh :: conn where
  "fresh = \<lparr> msgChan = [], errChan = [], ctxDone = False, tickReady = False,
             timerReady = False, timerStopped = False, receivedFirstToken = False,
             subscribed = False, returned = False, elapsed = 0, trace = [] \<rparr>"

text \<open>
  \<^verbatim>\<open>time.Second\<close>, and the two durations of the handlers:
  \<^verbatim>\<open>time.NewTicker(15 * time.Second)\<close> and \<^verbatim>\<open>time.NewTimer(30 * time.Second)\<close>.
\<close>

definition Second :: nat where
  "Second = 1000000000"

definition keepAlivePeriod :: nat where
  "keepAlivePeriod = 15 * Second"

definition firstTokenTimeout :: nat where
  "firstTokenTimeout = 30 * Second"

definition written :: "conn \<Rightarrow> frame list" where
  "written c = frames_of (trace c)"

text \<open>A handler that returns before its loop, after the given actions.\<close>

definition finish :: "effect list \<Rightarrow> conn" where
  "finish tr = fresh\<lparr> returned := True, trace := tr \<rparr>"

definition sse_headers :: "effect list" where
  "sse_headers =
     [SetHeader ''Content-Type'' ''text/event-stream'',
      SetHeader ''Cache-Control'' ''no-cache'',
      SetHeader ''Connection'' ''keep-alive'',
      SetHeader ''Access-Control-Allow-Origin'' ''*'',
      SetHeader ''X-Accel-Buffering'' ''no'']"

subsection \<open>The handlers up to their event loops\<close>

text \<open>
  \<^verbatim>\<open>HandleStream\<close>, lines 90 to 96: the resume point. A present header is scanned and the
  result incremented; a failed scan leaves zero to be incremented.
\<close>

definition startSequence_of :: "(string \<Rightarrow> int option) \<Rightarrow> string \<Rightarrow> int" where
  "startSequence_of scan lastEventID =
     (if lastEventID \<noteq> []
      then int64_wrap ((case scan lastEventID of None \<Rightarrow> 0 | Some n \<Rightarrow> n) + 1)
      else 0)"

definition stream_conversationID :: "Request \<Rightarrow> string" where
  "stream_conversationID r = TrimSuffix (TrimPrefix (Path r) ''/stream/'') ''/''"

definition HandleStream_setup :: "Runtime \<Rightarrow> Request \<Rightarrow> conn" where
  "HandleStream_setup rt r =
     (let conversationID = stream_conversationID r in
      if conversationID = [] then finish [HttpError ''conversation_id required'' 400]
      else if \<not> isFlusher rt then finish (sse_headers @ [HttpError ''SSE not supported'' 500])
      else
        let tr = sse_headers @ [ConnTrack, Log ''SSE connection started'',
                                Subscribe (subject_of conversationID)] in
        if subscribeFails rt
        then finish (tr @ [Log ''Failed to subscribe to NATS'',
                           HttpError ''Failed to subscribe'' 500, ConnUntrack])
        else fresh\<lparr> subscribed := True,
                    trace := tr @ [Wr (Comment (''connected to '' @ conversationID))] \<rparr>)"

definition HandleChat_setup :: "Config \<Rightarrow> Runtime \<Rightarrow> Request \<Rightarrow> conn" where
  "HandleChat_setup cfg rt r =
     (if Method r \<noteq> ''POST'' then
        (if Method r = ''OPTIONS''
         then finish [SetHeader ''Access-Control-Allow-Origin'' ''*'',
                      SetHeader ''Access-Control-Allow-Methods'' ''POST, OPTIONS'',
                      SetHeader ''Access-Control-Allow-Headers'' ''Content-Type'',
                      WriteHeader 200]
         else finish [HttpError ''Method not allowed'' 405])
      else if LLMProxyURL cfg = [] then finish [HttpError ''LLM proxy not configured'' 503]
      else
        (case decodeBody rt (Body r) of
           None \<Rightarrow> finish [DecodeBody, HttpError ''Invalid JSON body'' 400]
         | Some chatReq \<Rightarrow>
             if Message chatReq = [] then finish [DecodeBody, HttpError ''message is required'' 400]
             else
               let conversationID =
                     (if ReqConversationID chatReq = [] then newUUID rt
                      else ReqConversationID chatReq);
                   tr1 = DecodeBody # (if ReqConversationID chatReq = [] then [NewUUID] else [])
                           @ sse_headers
               in
               if \<not> isFlusher rt then finish (tr1 @ [HttpError ''SSE not supported'' 500])
               else
                 let tr2 = tr1 @ [ConnTrack, Log ''Chat request received'',
                                  Subscribe (subject_of conversationID)] in
                 if subscribeFails rt
                 then finish (tr2 @ [Log ''Failed to subscribe to NATS'',
                                     HttpError ''Failed to subscribe'' 500, ConnUntrack])
                 else fresh\<lparr> subscribed := True,
                             trace := tr2 @
                               [Wr (ConnectedEvent conversationID),
                                GoForward (TrimSuffix (LLMProxyURL cfg) ''/'' @ ''/chat'')
                                  (Message chatReq) conversationID] \<rparr>))"

subsection \<open>The subscription callbacks\<close>

text \<open>
  The non-blocking send of both callbacks:
  \<^verbatim>\<open>select { case msgChan <- &token: case <-doneChan: return; default: warn }\<close>.
  The send can proceed while the channel holds fewer than 100 envelopes, the receive from
  \<^verbatim>\<open>doneChan\<close> once the handler has returned. When both can proceed Go picks either one;
  \<open>pickDone\<close> says which.
\<close>

definition enqueue :: "bool \<Rightarrow> TokenMessage \<Rightarrow> conn \<Rightarrow> conn" where
  "enqueue pickDone token c =
     (if length (msgChan c) < 100 \<and> \<not> (returned c \<and> pickDone)
      then c\<lparr> msgChan := msgChan c @ [token] \<rparr>
      else if returned c then c
      else c\<lparr> trace := trace c @ [Log ''Message channel full, dropping message''] \<rparr>)"

definition stream_callback :: "int \<Rightarrow> TokenMessage option \<Rightarrow> bool \<Rightarrow> conn \<Rightarrow> conn" where
  "stream_callback startSequence payload pickDone c =
     (case payload of
        None \<Rightarrow> c\<lparr> trace := trace c @ [Log ''Failed to unmarshal token''] \<rparr>
      | Some token \<Rightarrow>
          if startSequence > 0 \<and> Sequence token \<le> startSequence then c
          else enqueue pickDone token c)"

definition chat_callback :: "TokenMessage option \<Rightarrow> bool \<Rightarrow> conn \<Rightarrow> conn" where
  "chat_callback payload pickDone c =
     (case payload of
        None \<Rightarrow> c\<lparr> trace := trace c @ [Log ''Failed to unmarshal token''] \<rparr>
      | Some token \<Rightarrow> enqueue pickDone token c)"

subsection \<open>The event loops\<close>

datatype select_case = CaseCtx | CaseErr | CaseTimer | CaseMsg | CaseTick

text \<open>A case of the loop's \<^verbatim>\<open>select\<close> can proceed when its channel has a value.\<close>

fun ready :: "select_case \<Rightarrow> conn \<Rightarrow> bool" where
  "ready CaseCtx c = ctxDone c"
| "ready CaseErr c = (errChan c \<noteq> [])"
| "ready CaseTimer c = timerReady c"
| "ready CaseMsg c = (msgChan c \<noteq> [])"
| "ready CaseTick c = tickReady c"

text \<open>
  Returning from a handler whose subscription is established runs its deferred calls:
  the timers stop, \<^verbatim>\<open>doneChan\<close> closes, the subscription is released and the gauges go
  down.
\<close>

definition handler_return :: "string \<Rightarrow> conn \<Rightarrow> conn" where
  "handler_return closedMsg c =
     c\<lparr> returned := True, timerStopped := True,
        trace := trace c @ [Unsubscribe, Log closedMsg, ConnUntrack] \<rparr>"

text \<open>One iteration of the loop of \<^verbatim>\<open>HandleStream\<close>, given the case its \<^verbatim>\<open>select\<close> takes.\<close>

fun stream_iter :: "select_case \<Rightarrow> conn \<Rightarrow> conn" where
  "stream_iter CaseCtx c = handler_return ''SSE connection closed'' c"
| "stream_iter CaseMsg c =
     (case msgChan c of
        [] \<Rightarrow> c
      | token # rest \<Rightarrow>
          let c1 = c\<lparr> msgChan := rest,
                      trace := trace c @ [Wr (TokenEvent (Sequence token) token)] \<rparr> in
          if Done token
          then handler_return ''SSE connection closed''
                 (c1\<lparr> trace := trace c1 @ [Log ''Stream completed''] \<rparr>)
          else c1)"
| "stream_iter CaseTick c =
     c\<lparr> tickReady := False, trace := trace c @ [Wr (Comment ''keep-alive'')] \<rparr>"
| "stream_iter CaseErr c = c"
| "stream_iter CaseTimer c = c"

text \<open>
  One iteration of the loop of \<^verbatim>\<open>HandleChat\<close>. \<^verbatim>\<open>firstTokenTimeout.Stop()\<close> prevents the
  timer from firing; a value that is already in the timer's channel is left there.
\<close>

fun chat_iter :: "select_case \<Rightarrow> conn \<Rightarrow> conn" where
  "chat_iter CaseCtx c = handler_return ''Chat connection closed'' c"
| "chat_iter CaseErr c =
     (case errChan c of
        [] \<Rightarrow> c
      | err # rest \<Rightarrow>
          handler_return ''Chat connection closed''
            (c\<lparr> errChan := rest, trace := trace c @ [Wr (ErrorEvent err)] \<rparr>))"
| "chat_iter CaseTimer c =
     (let c1 = c\<lparr> timerReady := False \<rparr> in
      if \<not> receivedFirstToken c1
      then handler_return ''Chat connection closed''
             (c1\<lparr> trace := trace c1 @ [Log ''Timeout waiting for first token'',
                                         Wr (ErrorEvent ''timeout waiting for response'')] \<rparr>)
      else c1)"
| "chat_iter CaseMsg c =
     (case msgChan c of
        [] \<Rightarrow> c
      | token # rest \<Rightarrow>
          let c1 = c\<lparr> msgChan := rest, receivedFirstToken := True, timerStopped := True,
                      trace := trace c @ [Wr (TokenEvent (Sequence token) token)] \<rparr> in
          if Done token
          then handler_return ''Chat connection closed''
                 (c1\<lparr> trace := trace c1 @ [Log ''Chat stream completed''] \<rparr>)
          else c1)"
| "chat_iter CaseTick c =
     c\<lparr> tickReady := False, trace := trace c @ [Wr (Comment ''keep-alive'')] \<rparr>"

text \<open>
  A connection is driven by what happens around it: the bus invokes the subscription
  callback with a payload (\<open>None\<close> when it does not unmarshal), the forwarding goroutine
  reports a failure on \<^verbatim>\<open>errChan\<close>, the client goes away, time passes, the ticker or the
  timer fires, and the loop's \<^verbatim>\<open>select\<close> takes one of its cases. Go chooses among the
  cases that can proceed by uniform pseudo-random selection, so any ready case may be
  taken; a case that cannot proceed is not taken, and such a step leaves the connection
  as it is. A ticker or timer sends on its channel no earlier than its duration after it
  was created, and not at all once it is stopped.
\<close>

datatype handler = StreamHandler int | ChatHandler

datatype event =
    Callback "TokenMessage option" bool
  | ForwardFailed string
  | Cancel
  | Elapse nat
  | TickFire
  | TimerFire
  | Select select_case

fun has_case :: "handler \<Rightarrow> select_case \<Rightarrow> bool" where
  "has_case (StreamHandler s) k = (k = CaseCtx \<or> k = CaseMsg \<or> k = CaseTick)"
| "has_case ChatHandler k = True"

fun iter :: "handler \<Rightarrow> select_case \<Rightarrow> conn \<Rightarrow> conn" where
  "iter (StreamHandler s) k c = stream_iter k c"
| "iter ChatHandler k c = chat_iter k c"

fun callback :: "handler \<Rightarrow> TokenMessage option \<Rightarrow> bool \<Rightarrow> conn \<Rightarrow> conn" where
  "callback (StreamHandler s) payload pickDone c = stream_callback s payload pickDone c"
| "callback ChatHandler payload pickDone c = chat_callback payload pickDone c"

fun step :: "handler \<Rightarrow> event \<Rightarrow> conn \<Rightarrow> conn" where
  "step h (Callback payload pickDone) c = (if subscribed c then callback h payload pickDone c else c)"
| "step h (ForwardFailed err) c =
     (if h = ChatHandler \<and> subscribed c \<and> errChan c = [] then c\<lparr> errChan := [err] \<rparr> else c)"
| "step h Cancel c = c\<lparr> ctxDone := True \<rparr>"
| "step h (Elapse d) c = c\<lparr> elapsed := elapsed c + d \<rparr>"
| "step h TickFire c =
     (if returned c \<or> elapsed c < keepAlivePeriod then c else c\<lparr> tickReady := True \<rparr>)"
| "step h TimerFire c =
     (if h = ChatHandler \<and> \<not> timerStopped c \<and> firstTokenTimeout \<le> elapsed c
      then c\<lparr> timerReady := True \<rparr> else c)"
| "step h (Select k) c =
     (if returned c \<or> \<not> has_case h k \<or> \<not> ready k c then c else iter h k c)"

fun run :: "handler \<Rightarrow> event list \<Rightarrow> conn \<Rightarrow> conn" where
  "run h [] c = c"
| "run h (e # es) c = run h es (step h e c)"

definition HandleStream :: "Runtime \<Rightarrow> Request \<Rightarrow> event list \<Rightarrow> conn" where
  "HandleStream rt r sched =
     run (StreamHandler (startSequence_of (Sscanf_d rt) (LastEventID r))) sched
       (HandleStream_setup rt r)"

definition HandleChat :: "Config \<Rightarrow> Runtime \<Rightarrow> Request \<Rightarrow> event list \<Rightarrow> conn" where
  "HandleChat cfg rt r sched = run ChatHandler sched (HandleChat_setup cfg rt r)"

text \<open>The envelopes a schedule hands to the callback, and the ids of the token events.\<close>

fun arrivals :: "event list \<Rightarrow> TokenMessage list" where
  "arrivals [] = []"
| "arrivals (Callback (Some token) pickDone # es) = token # arrivals es"
| "arrivals (e # es) = arrivals es"

fun token_ids :: "frame list \<Rightarrow> int list" where
  "token_ids [] = []"
| "token_ids (TokenEvent i token # fs) = i # token_ids fs"
| "token_ids (f # fs) = token_ids fs"


section \<open>The LLM stream proxy\<close>

text \<open>
  One element of \<^verbatim>\<open>StreamChunk.Choices\<close>: the delta's content and the finish reason
  (\<open>None\<close> for \<^verbatim>\<open>nil\<close>).
\<close>

record Choice =
  Content :: string
  FinishReason :: "string option"

text \<open>
  \<^verbatim>\<open>publishToken\<close> builds the envelope, stamps it with the clock and hands it to
  \<^verbatim>\<open>rdb.Publish\<close>; a failing publish is only logged. The envelopes handed over are
  collected in order; \<open>clock k\<close> is the time at the \<open>k\<close>-th call.
\<close>

definition publishToken ::
  "(nat \<Rightarrow> int) \<Rightarrow> string \<Rightarrow> string \<Rightarrow> int \<Rightarrow> bool \<Rightarrow> TokenMessage list \<Rightarrow> TokenMessage list" where
  "publishToken clock conversationID token sequence done sent =
     sent @ [\<lparr> ConversationID = conversationID, Token = token, Sequence = sequence,
               Done = done, Timestamp = clock (length sent) \<rparr>]"

text \<open>
  \<^verbatim>\<open>reader.ReadString('\n')\<close> on the rest of the response body: the line up to and
  including the next newline and what follows it, or an error (\<open>None\<close>) when no newline
  is left; the bytes read with the error are discarded by the caller.
\<close>

definition newline :: char where
  "newline = CHR 0x0A"

definition ReadString :: "string \<Rightarrow> (string \<times> string) option" where
  "ReadString body =
     (if newline \<in> set body
      then Some (takeWhile (\<lambda>c. c \<noteq> newline) body @ [newline],
                 tl (dropWhile (\<lambda>c. c \<noteq> newline) body))
      else None)"

text \<open>
  \<^verbatim>\<open>strings.TrimSpace\<close> removes the leading and the trailing white space runes, as
  \<^verbatim>\<open>unicode.IsSpace\<close> defines them. A Go string holds UTF-8, so a white space rune is one
  of these byte sequences: the six ASCII ones, U+0085 and U+00A0, U+1680, U+2000 to
  U+200A, U+2028, U+2029, U+202F, U+205F and U+3000.
\<close>

definition space_runes :: "string list" where
  "space_runes =
     [[CHR 0x09], [CHR 0x0A], [CHR 0x0B], [CHR 0x0C], [CHR 0x0D], [CHR 0x20],
      [CHR 0xC2, CHR 0x85], [CHR 0xC2, CHR 0xA0],
      [CHR 0xE1, CHR 0x9A, CHR 0x80],
      [CHR 0xE2, CHR 0x80, CHR 0x80], [CHR 0xE2, CHR 0x80, CHR 0x81],
      [CHR 0xE2, CHR 0x80, CHR 0x82], [CHR 0xE2, CHR 0x80, CHR 0x83],
      [CHR 0xE2, CHR 0x80, CHR 0x84], [CHR 0xE2, CHR 0x80, CHR 0x85],
      [CHR 0xE2, CHR 0x80, CHR 0x86], [CHR 0xE2, CHR 0x80, CHR 0x87],
      [CHR 0xE2, CHR 0x80, CHR 0x88], [CHR 0xE2, CHR 0x80, CHR 0x89],
      [CHR 0xE2, CHR 0x80, CHR 0x8A],
      [CHR 0xE2, CHR 0x80, CHR 0xA8], [CHR 0xE2, CHR 0x80, CHR 0xA9],
      [CHR 0xE2, CHR 0x80, CHR 0xAF],
      [CHR 0xE2, CHR 0x81, CHR 0x9F],
      [CHR 0xE3, CHR 0x80, CHR 0x80]]"

text \<open>The number of bytes of the white space rune a string starts or ends with, if any.\<close>

definition leading_space :: "string \<Rightarrow> nat" where
  "leading_space s =
     (case find (\<lambda>w. prefix w s) space_runes of None \<Rightarrow> 0 | Some w \<Rightarrow> length w)"

definition trailing_space :: "string \<Rightarrow> nat" where
  "trailing_space s =
     (case find (\<lambda>w. prefix (rev w) (rev s)) space_runes of None \<Rightarrow> 0 | Some w \<Rightarrow> length w)"

function TrimLeftSpace :: "string \<Rightarrow> string" where
  "TrimLeftSpace s =
     (if leading_space s = 0 then s else TrimLeftSpace (drop (leading_space s) s))"
  by pat_completeness auto
termination
proof -
  have "s \<noteq> []" if "leading_space s \<noteq> 0" for s
    using that by (auto simp: leading_space_def space_runes_def)
  then show ?thesis
    by (relation "measure length") auto
qed

function TrimRightSpace :: "string \<Rightarrow> string" where
  "TrimRightSpace s =
     (if trailing_space s = 0 then s
      else TrimRightSpace (take (length s - trailing_space s) s))"
  by pat_completeness auto
termination
proof -
  have "s \<noteq> []" if "trailing_space s \<noteq> 0" for s
    using that by (auto simp: trailing_space_def space_runes_def)
  then show ?thesis
    by (relation "measure length") auto
qed

definition TrimSpace :: "string \<Rightarrow> string" where
  "TrimSpace s = TrimRightSpace (TrimLeftSpace s)"

text \<open>
  The loop over the choices of one chunk: the new sequence counter, the envelopes sent,
  and whether the function returned from inside the loop. The counter starts at zero and
  grows by one per token, far below the range of \<^verbatim>\<open>int64\<close>.
\<close>

fun choices_loop ::
  "(nat \<Rightarrow> int) \<Rightarrow> string \<Rightarrow> Choice list \<Rightarrow> int \<Rightarrow> TokenMessage list
     \<Rightarrow> int \<times> TokenMessage list \<times> bool" where
  "choices_loop clock conversationID [] sequence sent = (sequence, sent, False)"
| "choices_loop clock conversationID (choice # rest) sequence sent =
     (let (sequence1, sent1) =
            (if Content choice \<noteq> []
             then (sequence + 1,
                   publishToken clock conversationID (Content choice) (sequence + 1) False sent)
             else (sequence, sent))
      in
      if FinishReason choice \<noteq> None
      then (sequence1,
            publishToken clock conversationID ''[DONE]'' (sequence1 + 1) True sent1, True)
      else choices_loop clock conversationID rest sequence1 sent1)"

text \<open>
  The read loop of \<^verbatim>\<open>streamFromLLM\<close> over the rest of the body, with the JSON decoder of a
  chunk as a parameter (\<open>None\<close>: \<^verbatim>\<open>json.Unmarshal\<close> fails and the line is skipped).
\<close>

function stream_loop ::
  "(nat \<Rightarrow> int) \<Rightarrow> (string \<Rightarrow> Choice list option) \<Rightarrow> string \<Rightarrow> string \<Rightarrow> int
     \<Rightarrow> TokenMessage list \<Rightarrow> TokenMessage list" where
  "stream_loop clock unmarshal conversationID body sequence sent =
     (case ReadString body of
        None \<Rightarrow> sent
      | Some (line0, rest) \<Rightarrow>
          let line = TrimSpace line0 in
          if line = [] \<or> \<not> prefix ''data: '' line
          then stream_loop clock unmarshal conversationID rest sequence sent
          else
            let data = TrimPrefix line ''data: '' in
            if data = ''[DONE]''
            then publishToken clock conversationID ''[DONE]'' (sequence + 1) True sent
            else
              (case unmarshal data of
                 None \<Rightarrow> stream_loop clock unmarshal conversationID rest sequence sent
               | Some choices \<Rightarrow>
                   (case choices_loop clock conversationID choices sequence sent of
                      (sequence1, sent1, returned_early) \<Rightarrow>
                        if returned_early then sent1
                        else stream_loop clock unmarshal conversationID rest sequence1 sent1)))"
  by pat_completeness auto
termination
proof -
  have shorter: "length rest < length body" if "ReadString body = Some (line, rest)"
    for body line rest
  proof -
    from that have nl: "newline \<in> set body"
      and r: "rest = tl (dropWhile (\<lambda>c. c \<noteq> newline) body)"
      by (auto simp: ReadString_def split: if_splits)
    from nl have ne: "dropWhile (\<lambda>c. c \<noteq> newline) body \<noteq> []"
      by (auto simp: dropWhile_eq_Nil_conv)
    have "length (dropWhile (\<lambda>c. c \<noteq> newline) body) \<le> length body"
      by (rule length_dropWhile_le)
    with ne r show ?thesis by (cases "dropWhile (\<lambda>c. c \<noteq> newline) body") auto
  qed
  show ?thesis
    by (relation "measure (\<lambda>(clock, unmarshal, conversationID, body, sequence, sent). length body)")
       (auto dest: shorter)
qed

text \<open>
  What the proxy gets back from vLLM: no request could be built, the transport failed, or
  a response with its status code and body.
\<close>

datatype llm_response = RequestError | TransportError | Response nat string

definition streamFromLLM ::
  "(nat \<Rightarrow> int) \<Rightarrow> (string \<Rightarrow> Choice list option) \<Rightarrow> string \<Rightarrow> llm_response
     \<Rightarrow> TokenMessage list" where
  "streamFromLLM clock unmarshal conversationID resp =
     (case resp of
        RequestError \<Rightarrow> publishToken clock conversationID ''[ERROR]'' 1 True []
      | TransportError \<Rightarrow> publishToken clock conversationID ''[ERROR]'' 1 True []
      | Response status body \<Rightarrow>
          if status \<noteq> 200 then publishToken clock conversationID ''[ERROR]'' 1 True []
          else stream_loop clock unmarshal conversationID body 0 [])"

text \<open>A decoder for concrete runs: it knows one chunk, with one choice and no finish reason.\<close>

definition sample_chunk_unmarshal :: "string \<Rightarrow> Choice list option" where
  "sample_chunk_unmarshal data =
     (if data = ''{hi}'' then Some [\<lparr> Content = ''Hi'', FinishReason = None \<rparr>] else None)"


text \<open>
  The token ids on their way to the client: those already written, then those of the
  envelopes waiting in \<^verbatim>\<open>msgChan\<close>.
\<close>

definition pipeline :: "conn \<Rightarrow> int list" where
  "pipeline c = token_ids (written c) @ map Sequence (msgChan c)"




text \<open>Sample requests, configuration and library results for concrete runs.\<close>

definition sample_token2 :: TokenMessage where
  "sample_token2 = \<lparr> ConversationID = ''c1'', Token = ''there'', Sequence = 2, Done = False,
                     Timestamp = 0 \<rparr>"

definition sample_done :: TokenMessage where
  "sample_done = \<lparr> ConversationID = ''c1'', Token = ''[DONE]'', Sequence = 3, Done = True,
                    Timestamp = 0 \<rparr>"

text \<open>The sample envelope with a given sequence number, and a burst of arrivals 1 to \<open>n\<close>.\<close>

definition sample_seq :: "nat \<Rightarrow> TokenMessage" where
  "sample_seq i = sample_token\<lparr> Sequence := int i \<rparr>"

definition sample_burst :: "nat \<Rightarrow> event list" where
  "sample_burst n = map (\<lambda>t. Callback (Some t) False) (map sample_seq [1..<Suc n])"

definition sample_rt :: Runtime where
  "sample_rt =
     \<lparr> decodeBody = (\<lambda>b. if b = ''{hello}''
                          then Some \<lparr> Message = ''hello'', ReqConversationID = ''c1'' \<rparr>
                          else None),
       newUUID = ''u1'', isFlusher = True, subscribeFails = False,
       Sscanf_d = (\<lambda>s. if s = ''5'' then Some 5 else None) \<rparr>"

definition sample_cfg :: Config where
  "sample_cfg = loadConfig (\<lambda>s. None) [''LLM_PROXY_URL'' \<mapsto> ''http://llm/'']"

definition sample_chat_request :: Request where
  "sample_chat_request = \<lparr> Method = ''POST'', Path = ''/chat'', LastEventID = [],
                            Body = ''{hello}'' \<rparr>"

definition sample_stream_request :: Request where
  "sample_stream_request = \<lparr> Method = ''GET'', Path = ''/stream/c1'', LastEventID = ''5'',
                              Body = [] \<rparr>"


section \<open>Results: the bridge\<close>

lemma bridge_loop_published:
  "published (bridge_loop cfg unmarshal evs st) =
     published st @ concat (map (forwarded unmarshal) (takeWhile (\<lambda>e. e \<noteq> Quit) evs))"
proof (induction cfg unmarshal evs st rule: bridge_loop.induct)
  case (4 cfg unmarshal msg publishErr evs st)
  then show ?case by (cases "unmarshal (Payload msg)") auto
qed auto

text \<open>
  C2, as the claim states it: the same envelope received twice is republished at most
  once. The loop never consults \<open>DedupeWindowSec\<close> (30 by default) and keeps no record of
  what it forwarded: two receipts of one payload are published twice.
\<close>

theorem bridge_republishes_duplicate:
  "DedupeWindowSec sample_bridge_cfg = 30 \<and>
   published (bridge_loop sample_bridge_cfg sample_unmarshal
                [Msg (Some sample_msg) False, Msg (Some sample_msg) False] bridge_init)
     = [(''chat.c1.tokens'', sample_token), (''chat.c1.tokens'', sample_token)]"
  by (simp add: sample_bridge_cfg_def bridge_loadConfig_def getEnvInt_def Getenv_def
      sample_unmarshal_def
      sample_msg_def bridge_init_def subject_of_def sample_token_def)

text \<open>
  C2, amended: the bridge suppresses nothing. Whatever it has received before, a message
  that decodes and whose publish succeeds is republished, on the subject of its
  conversation, after everything republished so far.
\<close>

theorem bridge_forwards_every_receipt:
  assumes "unmarshal (Payload msg) = Some token" and "Quit \<notin> set evs"
  shows "published (bridge_loop cfg unmarshal (evs @ [Msg (Some msg) False]) st) =
           published (bridge_loop cfg unmarshal evs st)
             @ [(subject_of (ConversationID token), token)]"
proof -
  from assms(2) have "takeWhile (\<lambda>e. e \<noteq> Quit) (evs @ [Msg (Some msg) False]) =
      takeWhile (\<lambda>e. e \<noteq> Quit) evs @ [Msg (Some msg) False]"
    by (induction evs) auto
  with assms(1) show ?thesis by (simp add: bridge_loop_published)
qed

theorem bridge_forwards_every_receipt_witness:
  "sample_unmarshal (Payload sample_msg) = Some sample_token \<and>
   Quit \<notin> set [Msg (Some sample_msg) False] \<and>
   published (bridge_loop sample_bridge_cfg sample_unmarshal
                ([Msg (Some sample_msg) False] @ [Msg (Some sample_msg) False]) bridge_init) =
     published (bridge_loop sample_bridge_cfg sample_unmarshal [Msg (Some sample_msg) False] bridge_init)
       @ [(subject_of (ConversationID sample_token), sample_token)]"
proof -
  have h1: "sample_unmarshal (Payload sample_msg) = Some sample_token"
    by (simp add: sample_unmarshal_def sample_msg_def)
  have h2: "Quit \<notin> set [Msg (Some sample_msg) False]" by simp
  from bridge_forwards_every_receipt
         [where unmarshal = sample_unmarshal and msg = sample_msg and token = sample_token
            and evs = "[Msg (Some sample_msg) False]" and cfg = sample_bridge_cfg and st = bridge_init]
       h1 h2
  show ?thesis by blast
qed


section \<open>Results: runs of a connection\<close>

lemmas conn_defs =
  stream_callback_def chat_callback_def enqueue_def handler_return_def written_def

lemmas sample_defs =
  sample_cfg_def sample_rt_def sample_chat_request_def sample_stream_request_def
  sample_token_def sample_token2_def sample_done_def
  loadConfig_def getEnv_def Getenv_def getDurationEnv_def

lemmas setup_defs =
  HandleChat_def HandleStream_def HandleChat_setup_def HandleStream_setup_def
  stream_conversationID_def startSequence_of_def int64_wrap_def
  fresh_def finish_def sse_headers_def TrimSuffix_def TrimPrefix_def subject_of_def
  Second_def keepAlivePeriod_def firstTokenTimeout_def Let_def

lemma frames_of_append: "frames_of (xs @ ys) = frames_of xs @ frames_of ys"
  by (induction xs rule: frames_of.induct) auto

lemma token_ids_append: "token_ids (xs @ ys) = token_ids xs @ token_ids ys"
  by (induction xs rule: token_ids.induct) auto


lemma run_append: "run h (xs @ ys) c = run h ys (run h xs c)"
  by (induction xs arbitrary: c) auto

text \<open>Once the handler has returned it stays so, and nothing more is written.\<close>

lemma step_returned: "returned c \<Longrightarrow> returned (step h e c)"
  by (cases e; cases h) (auto simp: conn_defs split: option.splits)

lemma run_returned: "returned c \<Longrightarrow> returned (run h sched c)"
  by (induction sched arbitrary: c) (auto simp: step_returned)

lemma step_written_returned: "returned c \<Longrightarrow> written (step h e c) = written c"
  by (cases e; cases h) (auto simp: conn_defs frames_of_append split: option.splits)

lemma run_written_returned: "returned c \<Longrightarrow> written (run h sched c) = written c"
  by (induction sched arbitrary: c) (auto simp: step_returned step_written_returned)




text \<open>A handler that returned without a subscription is not touched by anything.\<close>

lemma step_trace_unsubscribed:
  "returned c \<Longrightarrow> \<not> subscribed c \<Longrightarrow>
     trace (step h e c) = trace c \<and> returned (step h e c) \<and> \<not> subscribed (step h e c)
     \<and> msgChan (step h e c) = msgChan c \<and> errChan (step h e c) = errChan c"
  by (cases e) auto

lemma run_trace_unsubscribed:
  "returned c \<Longrightarrow> \<not> subscribed c \<Longrightarrow>
     trace (run h sched c) = trace c \<and> returned (run h sched c) \<and> \<not> subscribed (run h sched c)
     \<and> msgChan (run h sched c) = msgChan c \<and> errChan (run h sched c) = errChan c"
proof (induction sched arbitrary: c)
  case Nil
  then show ?case by simp
next
  case (Cons e es)
  from step_trace_unsubscribed [OF Cons.prems, of h e]
  have s: "trace (step h e c) = trace c" "returned (step h e c)" "\<not> subscribed (step h e c)"
    "msgChan (step h e c) = msgChan c" "errChan (step h e c) = errChan c"
    by blast+
  from Cons.IH [OF s(2) s(3)] s show ?case by simp
qed


section \<open>Results: order of delivery\<close>

lemma subseq_sorted_wrt: "subseq xs ys \<Longrightarrow> sorted_wrt P ys \<Longrightarrow> sorted_wrt P xs"
proof (induction rule: list_emb.induct)
  case (list_emb_Cons2 x y xs ys)
  have "P x z" if "z \<in> set xs" for z
  proof -
    from list_emb_Cons2.hyps(2) that obtain w where "w \<in> set ys" "z = w"
      by (rule list_emb_set)
    with list_emb_Cons2 show ?thesis by auto
  qed
  with list_emb_Cons2 show ?case by auto
qed auto

text \<open>A loop iteration moves an id from the queue to the stream; the pipeline stays.\<close>

lemma stream_iter_pipeline: "pipeline (stream_iter k c) = pipeline c"
  by (cases k)
     (auto simp: conn_defs pipeline_def frames_of_append token_ids_append Let_def
           split: list.splits)

lemma chat_iter_pipeline: "pipeline (chat_iter k c) = pipeline c"
  by (cases k)
     (auto simp: conn_defs pipeline_def frames_of_append token_ids_append Let_def
           split: list.splits)

text \<open>The callback appends the new id at the end of the pipeline, or drops it.\<close>

lemma callback_pipeline:
  "pipeline (callback h payload pickDone c) = pipeline c \<or>
   (\<exists>token. payload = Some token \<and>
      pipeline (callback h payload pickDone c) = pipeline c @ [Sequence token])"
  by (cases h; cases payload)
     (auto simp: conn_defs pipeline_def frames_of_append token_ids_append)

lemma step_pipeline:
  "\<exists>ys. pipeline (step h e c) = pipeline c @ ys \<and> subseq ys (map Sequence (arrivals [e]))"
proof (cases e)
  case (Callback payload pickDone)
  then show ?thesis
    using callback_pipeline [of h payload pickDone c] by (cases payload) auto
next
  case (Select k)
  then show ?thesis
    by (cases h) (auto simp: stream_iter_pipeline chat_iter_pipeline)
qed (auto simp: pipeline_def written_def)

lemma arrivals_Cons: "arrivals (e # es) = arrivals [e] @ arrivals es"
  by (cases "e # es" rule: arrivals.cases) auto

lemma run_pipeline:
  "\<exists>ys. pipeline (run h sched c) = pipeline c @ ys \<and> subseq ys (map Sequence (arrivals sched))"
proof (induction sched arbitrary: c)
  case Nil
  then show ?case by simp
next
  case (Cons e es)
  obtain ys where ys: "pipeline (step h e c) = pipeline c @ ys"
      "subseq ys (map Sequence (arrivals [e]))"
    using step_pipeline by blast
  obtain zs where zs: "pipeline (run h es (step h e c)) = pipeline (step h e c) @ zs"
      "subseq zs (map Sequence (arrivals es))"
    using Cons.IH by blast
  have "subseq (ys @ zs) (map Sequence (arrivals [e]) @ map Sequence (arrivals es))"
    using ys(2) zs(2) by (rule list_emb_append_mono)
  then have "subseq (ys @ zs) (map Sequence (arrivals (e # es)))"
    by (subst arrivals_Cons) simp
  with ys(1) zs(1) show ?case by auto
qed

lemma HandleStream_setup_pipeline: "pipeline (HandleStream_setup rt r) = []"
  by (simp add: HandleStream_setup_def pipeline_def written_def finish_def fresh_def
      sse_headers_def Let_def)

lemma HandleChat_setup_pipeline: "pipeline (HandleChat_setup cfg rt r) = []"
  by (simp add: HandleChat_setup_def pipeline_def written_def finish_def fresh_def
      sse_headers_def Let_def split: option.splits)

lemma ids_of_run:
  assumes "pipeline c = []"
  shows "subseq (token_ids (written (run h sched c))) (map Sequence (arrivals sched))"
proof -
  obtain ys where ys: "pipeline (run h sched c) = ys" "subseq ys (map Sequence (arrivals sched))"
    using run_pipeline [of h sched c] assms by auto
  have "prefix (token_ids (written (run h sched c))) ys"
    using ys(1) by (auto simp: pipeline_def)
  then have "subseq (token_ids (written (run h sched c))) ys"
    by (rule prefix_imp_subseq)
  from this ys(2) show ?thesis by (rule subseq_order.trans)
qed

lemma iter_msgChan_bound: "length (msgChan c) \<le> 100 \<Longrightarrow> length (msgChan (iter h k c)) \<le> 100"
  by (cases h; cases k) (auto simp: conn_defs Let_def split: list.splits)

lemma step_msgChan_bound: "length (msgChan c) \<le> 100 \<Longrightarrow> length (msgChan (step h e c)) \<le> 100"
proof (cases e)
  case (Callback payload pickDone)
  assume "length (msgChan c) \<le> 100"
  with Callback show ?thesis by (cases h; cases payload) (auto simp: conn_defs)
next
  case (Select k)
  assume "length (msgChan c) \<le> 100"
  with Select show ?thesis using iter_msgChan_bound [of c h k] by simp
qed auto

lemma run_msgChan_bound: "length (msgChan c) \<le> 100 \<Longrightarrow> length (msgChan (run h sched c)) \<le> 100"
  by (induction sched arbitrary: c) (auto simp: step_msgChan_bound)

lemma HandleStream_setup_open:
  "\<not> returned (HandleStream_setup rt r) \<Longrightarrow>
     subscribed (HandleStream_setup rt r) \<and> msgChan (HandleStream_setup rt r) = []"
  by (auto simp: HandleStream_setup_def finish_def fresh_def Let_def split: if_splits)

lemma HandleChat_setup_open:
  "\<not> returned (HandleChat_setup cfg rt r) \<Longrightarrow>
     subscribed (HandleChat_setup cfg rt r) \<and> msgChan (HandleChat_setup cfg rt r) = []"
  by (auto simp: HandleChat_setup_def finish_def fresh_def Let_def split: if_splits option.splits)

lemma setup_msgChan: "msgChan (HandleStream_setup rt r) = []" "msgChan (HandleChat_setup cfg rt r) = []"
  by (auto simp: HandleStream_setup_def HandleChat_setup_def finish_def fresh_def Let_def split: option.splits)

text \<open>
  Arrivals in a row fill the queue up to its depth and the later ones are dropped; loop
  iterations in a row write the queue from its head.
\<close>

lemma chat_burst:
  assumes "subscribed c" "\<not> returned c" "length (msgChan c) \<le> 100"
  shows "msgChan (run ChatHandler (map (\<lambda>t. Callback (Some t) False) ts) c) = take 100 (msgChan c @ ts)
       \<and> written (run ChatHandler (map (\<lambda>t. Callback (Some t) False) ts) c) = written c
       \<and> \<not> returned (run ChatHandler (map (\<lambda>t. Callback (Some t) False) ts) c)
       \<and> subscribed (run ChatHandler (map (\<lambda>t. Callback (Some t) False) ts) c)"
  using assms
proof (induction ts arbitrary: c)
  case Nil
  then show ?case by simp
next
  case (Cons t ts)
  let ?c = "step ChatHandler (Callback (Some t) False) c"
  from Cons.prems have s: "subscribed ?c" "\<not> returned ?c" "length (msgChan ?c) \<le> 100"
     "written ?c = written c"
     "msgChan ?c = (if length (msgChan c) < 100 then msgChan c @ [t] else msgChan c)"
    by (auto simp: conn_defs frames_of_append)
  from Cons.IH [OF s(1-3)] s(4)
  have ih: "msgChan (run ChatHandler (map (\<lambda>t. Callback (Some t) False) (t # ts)) c)
              = take 100 (msgChan ?c @ ts)"
    and rest: "written (run ChatHandler (map (\<lambda>t. Callback (Some t) False) (t # ts)) c)
              = written c"
      "\<not> returned (run ChatHandler (map (\<lambda>t. Callback (Some t) False) (t # ts)) c)"
      "subscribed (run ChatHandler (map (\<lambda>t. Callback (Some t) False) (t # ts)) c)"
    by simp_all
  have "take 100 (msgChan ?c @ ts) = take 100 (msgChan c @ t # ts)"
  proof (cases "length (msgChan c) < 100")
    case True
    with s(5) have "msgChan ?c @ ts = msgChan c @ t # ts" by simp
    then show ?thesis by (simp only:)
  next
    case False
    with s(5) Cons.prems(3) show ?thesis by simp
  qed
  with ih rest show ?case by (simp only: simp_thms)
qed

lemma stream_burst:
  assumes "subscribed c" "\<not> returned c" "length (msgChan c) \<le> 100"
  shows "msgChan (run (StreamHandler s) (map (\<lambda>t. Callback (Some t) False) ts) c)
           = take 100 (msgChan c @ filter (\<lambda>t. \<not> (0 < s \<and> Sequence t \<le> s)) ts)
       \<and> written (run (StreamHandler s) (map (\<lambda>t. Callback (Some t) False) ts) c) = written c
       \<and> \<not> returned (run (StreamHandler s) (map (\<lambda>t. Callback (Some t) False) ts) c)"
  using assms
proof (induction ts arbitrary: c)
  case Nil
  then show ?case by simp
next
  case (Cons t ts)
  let ?c = "step (StreamHandler s) (Callback (Some t) False) c"
  from Cons.prems have s: "subscribed ?c" "\<not> returned ?c" "length (msgChan ?c) \<le> 100"
     "written ?c = written c"
     "msgChan ?c = (if \<not> (0 < s \<and> Sequence t \<le> s) \<and> length (msgChan c) < 100
                    then msgChan c @ [t] else msgChan c)"
    by (auto simp: conn_defs frames_of_append)
  let ?keep = "\<lambda>t. \<not> (0 < s \<and> Sequence t \<le> s)"
  from Cons.IH [OF s(1-3)] s(4)
  have ih: "msgChan (run (StreamHandler s) (map (\<lambda>t. Callback (Some t) False) (t # ts)) c)
              = take 100 (msgChan ?c @ filter ?keep ts)"
    and rest: "written (run (StreamHandler s) (map (\<lambda>t. Callback (Some t) False) (t # ts)) c)
              = written c"
      "\<not> returned (run (StreamHandler s) (map (\<lambda>t. Callback (Some t) False) (t # ts)) c)"
    by simp_all
  have "take 100 (msgChan ?c @ filter ?keep ts) = take 100 (msgChan c @ filter ?keep (t # ts))"
  proof (cases "?keep t")
    case keep: True
    show ?thesis
    proof (cases "length (msgChan c) < 100")
      case True
      with keep s(5) have "msgChan ?c @ filter ?keep ts = msgChan c @ filter ?keep (t # ts)"
        by simp
      then show ?thesis by (simp only:)
    next
      case False
      with s(5) Cons.prems(3) show ?thesis by simp
    qed
  next
    case False
    with s(5) show ?thesis by simp
  qed
  with ih rest show ?case by (simp only: simp_thms)
qed

lemma drain:
  assumes "\<not> returned c" "\<forall>t \<in> set (take k (msgChan c)). \<not> Done t"
  shows "written (run h (replicate k (Select CaseMsg)) c)
           = written c @ map (\<lambda>t. TokenEvent (Sequence t) t) (take k (msgChan c))
       \<and> msgChan (run h (replicate k (Select CaseMsg)) c) = drop k (msgChan c)
       \<and> \<not> returned (run h (replicate k (Select CaseMsg)) c)"
  using assms
proof (induction k arbitrary: c)
  case 0
  then show ?case by simp
next
  case (Suc k)
  show ?case
  proof (cases "msgChan c")
    case Nil
    with Suc.prems have "step h (Select CaseMsg) c = c" by simp
    moreover from Nil Suc.prems have "\<forall>t \<in> set (take k (msgChan c)). \<not> Done t" by simp
    ultimately show ?thesis using Suc.IH [OF Suc.prems(1)] Nil by simp
  next
    case (Cons t rest)
    let ?c = "step h (Select CaseMsg) c"
    from Cons Suc.prems have nd: "\<not> Done t" by simp
    with Cons Suc.prems(1) have s: "\<not> returned ?c" "msgChan ?c = rest"
       "written ?c = written c @ [TokenEvent (Sequence t) t]"
      by (cases h; auto simp: conn_defs frames_of_append Let_def)+
    from Cons Suc.prems(2) s(2) have "\<forall>t \<in> set (take k (msgChan ?c)). \<not> Done t" by simp
    from Suc.IH [OF s(1) this] s Cons show ?thesis by simp
  qed
qed


lemma arrivals_burst:
  "arrivals (map (\<lambda>t. Callback (Some t) False) ts @ replicate k (Select CaseMsg)) = ts"
proof (induction ts)
  case Nil
  then show ?case by (induction k) auto
qed auto

lemma written_ids_ordered:
  assumes "sorted_wrt (<) (map Sequence (arrivals sched))"
  shows "subseq (token_ids (written (HandleStream rt r sched))) (map Sequence (arrivals sched))
       \<and> sorted_wrt (<) (token_ids (written (HandleStream rt r sched)))
       \<and> distinct (token_ids (written (HandleStream rt r sched)))
       \<and> subseq (token_ids (written (HandleChat cfg rt r sched))) (map Sequence (arrivals sched))
       \<and> sorted_wrt (<) (token_ids (written (HandleChat cfg rt r sched)))
       \<and> distinct (token_ids (written (HandleChat cfg rt r sched)))"
proof -
  have s: "subseq (token_ids (written (HandleStream rt r sched))) (map Sequence (arrivals sched))"
    unfolding HandleStream_def by (rule ids_of_run) (rule HandleStream_setup_pipeline)
  have c: "subseq (token_ids (written (HandleChat cfg rt r sched))) (map Sequence (arrivals sched))"
    unfolding HandleChat_def by (rule ids_of_run) (rule HandleChat_setup_pipeline)
  from s assms have s2: "sorted_wrt (<) (token_ids (written (HandleStream rt r sched)))"
    by (rule subseq_sorted_wrt)
  from c assms have c2: "sorted_wrt (<) (token_ids (written (HandleChat cfg rt r sched)))"
    by (rule subseq_sorted_wrt)
  from s c s2 c2 show ?thesis by (simp add: strict_sorted_iff)
qed

lemma chat_burst_drain:
  assumes "\<not> returned (HandleChat_setup cfg rt r)"
    and "\<forall>t \<in> set (take k (take 100 ts)). \<not> Done t"
  shows "written (HandleChat cfg rt r
            (map (\<lambda>t. Callback (Some t) False) ts @ replicate k (Select CaseMsg)))
         = written (HandleChat_setup cfg rt r)
             @ map (\<lambda>t. TokenEvent (Sequence t) t) (take k (take 100 ts))"
proof -
  let ?c0 = "HandleChat_setup cfg rt r"
  let ?c1 = "run ChatHandler (map (\<lambda>t. Callback (Some t) False) ts) ?c0"
  from HandleChat_setup_open [OF assms(1)]
  have o: "subscribed ?c0" "msgChan ?c0 = []" by simp_all
  from chat_burst [OF o(1) assms(1), of ts] o(2)
  have b: "msgChan ?c1 = take 100 ts" "written ?c1 = written ?c0" "\<not> returned ?c1"
    by simp_all
  from assms(2) b(1) have "\<forall>t \<in> set (take k (msgChan ?c1)). \<not> Done t" by simp
  from drain [OF b(3) this, of ChatHandler] b(1,2)
  show ?thesis by (simp add: HandleChat_def run_append)
qed

lemma stream_burst_drain:
  assumes "\<not> returned (HandleStream_setup rt r)"
    and "s = startSequence_of (Sscanf_d rt) (LastEventID r)"
    and "\<forall>t \<in> set (take k (take 100 (filter (\<lambda>t. \<not> (0 < s \<and> Sequence t \<le> s)) ts))). \<not> Done t"
  shows "written (HandleStream rt r
            (map (\<lambda>t. Callback (Some t) False) ts @ replicate k (Select CaseMsg)))
         = written (HandleStream_setup rt r)
             @ map (\<lambda>t. TokenEvent (Sequence t) t)
                 (take k (take 100 (filter (\<lambda>t. \<not> (0 < s \<and> Sequence t \<le> s)) ts)))"
proof -
  let ?c0 = "HandleStream_setup rt r"
  let ?c1 = "run (StreamHandler s) (map (\<lambda>t. Callback (Some t) False) ts) ?c0"
  from HandleStream_setup_open [OF assms(1)]
  have o: "subscribed ?c0" "msgChan ?c0 = []" by simp_all
  from stream_burst [OF o(1) assms(1), of s ts] o(2)
  have b: "msgChan ?c1 = take 100 (filter (\<lambda>t. \<not> (0 < s \<and> Sequence t \<le> s)) ts)"
    "written ?c1 = written ?c0" "\<not> returned ?c1"
    by simp_all
  from assms(3) b(1) have "\<forall>t \<in> set (take k (msgChan ?c1)). \<not> Done t" by simp
  from drain [OF b(3) this, of "StreamHandler s"] b(1,2) assms(2)
  show ?thesis by (simp add: HandleStream_def run_append)
qed

text \<open>
  C3: under every interleaving of arrivals, loop iterations, ticks and failures, and for
  either handler: when the envelopes handed to the subscription callback carry strictly
  increasing sequence numbers, the ids of the token events written are a subsequence of
  the published sequence numbers, strictly increasing and without duplicates. The queue
  never holds more than 100 envelopes. On an open connection an arriving envelope (one
  that passes the resume filter of \<^verbatim>\<open>HandleStream\<close>) is appended to the queue while the
  queue holds fewer than 100; when it holds 100 the new arrival is dropped, and the queue
  and the stream stay as they are. A loop iteration that receives from the queue writes
  the token event of the oldest queued envelope. So a burst of arrivals followed by \<open>k\<close>
  loop iterations (none reaching a terminal envelope) writes, after the opening frame,
  exactly the first \<open>k\<close> of the first 100 accepted envelopes, in order.
\<close>

theorem delivery_ordered_lossy_when_full:
  "(sorted_wrt (<) (map Sequence (arrivals sched)) \<longrightarrow>
       subseq (token_ids (written (HandleStream rt r sched))) (map Sequence (arrivals sched))
     \<and> sorted_wrt (<) (token_ids (written (HandleStream rt r sched)))
     \<and> distinct (token_ids (written (HandleStream rt r sched)))
     \<and> subseq (token_ids (written (HandleChat cfg rt r sched))) (map Sequence (arrivals sched))
     \<and> sorted_wrt (<) (token_ids (written (HandleChat cfg rt r sched)))
     \<and> distinct (token_ids (written (HandleChat cfg rt r sched))))
   \<and> length (msgChan (HandleStream rt r sched)) \<le> 100
   \<and> length (msgChan (HandleChat cfg rt r sched)) \<le> 100
   \<and> (subscribed c \<and> \<not> returned c \<and> length (msgChan c) < 100 \<longrightarrow>
        msgChan (step ChatHandler (Callback (Some t) p) c) = msgChan c @ [t]
      \<and> (\<not> (0 < s \<and> Sequence t \<le> s) \<longrightarrow>
           msgChan (step (StreamHandler s) (Callback (Some t) p) c) = msgChan c @ [t]))
   \<and> (subscribed c \<and> \<not> returned c \<and> length (msgChan c) = 100 \<longrightarrow>
        msgChan (step h (Callback (Some t) p) c) = msgChan c
      \<and> written (step h (Callback (Some t) p) c) = written c)
   \<and> (\<not> returned c \<and> msgChan c = t # rest \<longrightarrow>
        written (step h (Select CaseMsg) c) = written c @ [TokenEvent (Sequence t) t]
      \<and> msgChan (step h (Select CaseMsg) c) = rest)
   \<and> (\<not> returned (HandleChat_setup cfg rt r)
        \<and> (\<forall>t \<in> set (take k (take 100 ts)). \<not> Done t) \<longrightarrow>
        written (HandleChat cfg rt r
                   (map (\<lambda>t. Callback (Some t) False) ts @ replicate k (Select CaseMsg)))
          = written (HandleChat_setup cfg rt r)
              @ map (\<lambda>t. TokenEvent (Sequence t) t) (take k (take 100 ts)))
   \<and> (\<not> returned (HandleStream_setup rt r)
        \<and> s = startSequence_of (Sscanf_d rt) (LastEventID r)
        \<and> (\<forall>t \<in> set (take k (take 100
                      (filter (\<lambda>t. \<not> (0 < s \<and> Sequence t \<le> s)) ts))). \<not> Done t) \<longrightarrow>
        written (HandleStream rt r
                   (map (\<lambda>t. Callback (Some t) False) ts @ replicate k (Select CaseMsg)))
          = written (HandleStream_setup rt r)
              @ map (\<lambda>t. TokenEvent (Sequence t) t)
                  (take k (take 100 (filter (\<lambda>t. \<not> (0 < s \<and> Sequence t \<le> s)) ts))))"
proof (intro conjI impI)
  assume "sorted_wrt (<) (map Sequence (arrivals sched))"
  note o = written_ids_ordered [OF this, of rt r cfg]
  from o show "subseq (token_ids (written (HandleStream rt r sched)))
      (map Sequence (arrivals sched))" by blast
  from o show "sorted_wrt (<) (token_ids (written (HandleStream rt r sched)))" by blast
  from o show "distinct (token_ids (written (HandleStream rt r sched)))" by blast
  from o show "subseq (token_ids (written (HandleChat cfg rt r sched)))
      (map Sequence (arrivals sched))" by blast
  from o show "sorted_wrt (<) (token_ids (written (HandleChat cfg rt r sched)))" by blast
  from o show "distinct (token_ids (written (HandleChat cfg rt r sched)))" by blast
next
  show "length (msgChan (HandleStream rt r sched)) \<le> 100"
    unfolding HandleStream_def by (rule run_msgChan_bound) (simp add: setup_msgChan)
  show "length (msgChan (HandleChat cfg rt r sched)) \<le> 100"
    unfolding HandleChat_def by (rule run_msgChan_bound) (simp add: setup_msgChan)
next
  assume "subscribed c \<and> \<not> returned c \<and> length (msgChan c) < 100"
  then show "msgChan (step ChatHandler (Callback (Some t) p) c) = msgChan c @ [t]"
    by (simp add: conn_defs)
next
  assume "subscribed c \<and> \<not> returned c \<and> length (msgChan c) < 100"
    and "\<not> (0 < s \<and> Sequence t \<le> s)"
  then show "msgChan (step (StreamHandler s) (Callback (Some t) p) c) = msgChan c @ [t]"
    by (simp add: conn_defs)
next
  assume a: "subscribed c \<and> \<not> returned c \<and> length (msgChan c) = 100"
  then show "msgChan (step h (Callback (Some t) p) c) = msgChan c"
    by (cases h) (auto simp: conn_defs)
  from a show "written (step h (Callback (Some t) p) c) = written c"
    by (cases h) (auto simp: conn_defs frames_of_append)
next
  assume a: "\<not> returned c \<and> msgChan c = t # rest"
  then show "written (step h (Select CaseMsg) c) = written c @ [TokenEvent (Sequence t) t]"
    by (cases h; cases "Done t") (auto simp: conn_defs frames_of_append Let_def)
  from a show "msgChan (step h (Select CaseMsg) c) = rest"
    by (cases h; cases "Done t") (auto simp: conn_defs Let_def)
next
  assume "\<not> returned (HandleChat_setup cfg rt r)
        \<and> (\<forall>t \<in> set (take k (take 100 ts)). \<not> Done t)"
  then show "written (HandleChat cfg rt r
                   (map (\<lambda>t. Callback (Some t) False) ts @ replicate k (Select CaseMsg)))
          = written (HandleChat_setup cfg rt r)
              @ map (\<lambda>t. TokenEvent (Sequence t) t) (take k (take 100 ts))"
    using chat_burst_drain by blast
next
  assume "\<not> returned (HandleStream_setup rt r)
        \<and> s = startSequence_of (Sscanf_d rt) (LastEventID r)
        \<and> (\<forall>t \<in> set (take k (take 100
                      (filter (\<lambda>t. \<not> (0 < s \<and> Sequence t \<le> s)) ts))). \<not> Done t)"
  then show "written (HandleStream rt r
                   (map (\<lambda>t. Callback (Some t) False) ts @ replicate k (Select CaseMsg)))
          = written (HandleStream_setup rt r)
              @ map (\<lambda>t. TokenEvent (Sequence t) t)
                  (take k (take 100 (filter (\<lambda>t. \<not> (0 < s \<and> Sequence t \<le> s)) ts)))"
    using stream_burst_drain by blast
qed

theorem delivery_ordered_lossy_when_full_witness:
  "sorted_wrt (<) (map Sequence (arrivals (sample_burst 101 @ replicate 101 (Select CaseMsg))))
   \<and> sorted_wrt (<) (token_ids (written (HandleChat sample_cfg sample_rt sample_chat_request
         (sample_burst 101 @ replicate 101 (Select CaseMsg)))))
   \<and> \<not> returned (HandleChat_setup sample_cfg sample_rt sample_chat_request)
   \<and> written (HandleChat sample_cfg sample_rt sample_chat_request
         (sample_burst 101 @ replicate 101 (Select CaseMsg)))
       = ConnectedEvent ''c1'' # map (\<lambda>t. TokenEvent (Sequence t) t) (map sample_seq [1..<101])
   \<and> \<not> returned (HandleStream_setup sample_rt sample_stream_request)
   \<and> written (HandleStream sample_rt sample_stream_request
         (map (\<lambda>t. Callback (Some t) False) [sample_seq 6, sample_seq 7, sample_seq 8]
            @ replicate 3 (Select CaseMsg)))
       = [Comment ''connected to c1'', TokenEvent 7 (sample_seq 7), TokenEvent 8 (sample_seq 8)]
   \<and> length (msgChan (HandleChat sample_cfg sample_rt sample_chat_request (sample_burst 100)))
       = 100
   \<and> msgChan (step ChatHandler (Callback (Some (sample_seq 101)) False)
         (HandleChat sample_cfg sample_rt sample_chat_request (sample_burst 100)))
       = msgChan (HandleChat sample_cfg sample_rt sample_chat_request (sample_burst 100))
   \<and> msgChan (step ChatHandler (Callback (Some (sample_seq 1)) False)
         (HandleChat_setup sample_cfg sample_rt sample_chat_request)) = [sample_seq 1]
   \<and> written (step ChatHandler (Select CaseMsg)
         (HandleChat sample_cfg sample_rt sample_chat_request (sample_burst 1)))
       = [ConnectedEvent ''c1'', TokenEvent 1 (sample_seq 1)]"
proof -
  let ?c0 = "HandleChat_setup sample_cfg sample_rt sample_chat_request"
  let ?s0 = "HandleStream_setup sample_rt sample_stream_request"
  let ?full = "HandleChat sample_cfg sample_rt sample_chat_request (sample_burst 100)"
  let ?one = "HandleChat sample_cfg sample_rt sample_chat_request (sample_burst 1)"
  note T = delivery_ordered_lossy_when_full
  have c0: "\<not> returned ?c0" "subscribed ?c0" "msgChan ?c0 = []"
      "written ?c0 = [ConnectedEvent ''c1'']"
    by (simp_all add: sample_defs setup_defs conn_defs)
  have s0: "\<not> returned ?s0" "written ?s0 = [Comment ''connected to c1'']"
      "startSequence_of (Sscanf_d sample_rt) (LastEventID sample_stream_request) = 6"
    by (simp_all add: sample_defs setup_defs conn_defs)
  have h1: "sorted_wrt (<)
      (map Sequence (arrivals (sample_burst 101 @ replicate 101 (Select CaseMsg))))"
  proof -
    have "arrivals (sample_burst 101 @ replicate 101 (Select CaseMsg))
        = map sample_seq [1..<Suc 101]"
      unfolding sample_burst_def by (rule arrivals_burst)
    moreover have "map Sequence (map sample_seq [1..<Suc 101]) = map int [1..<Suc 101]"
      by (simp add: sample_seq_def comp_def)
    moreover have "sorted_wrt (<) (map int [1..<Suc 101])"
      by (simp add: sorted_wrt_map)
    ultimately show ?thesis by (simp only:)
  qed
  have h2: "\<forall>t \<in> set (take 101 (take 100 (map sample_seq [1..<Suc 101]))). \<not> Done t"
    by (auto simp: sample_seq_def sample_token_def dest!: in_set_takeD)
  have t100: "take 101 (take 100 (map sample_seq [1..<Suc 101])) = map sample_seq [1..<101]"
    by (simp add: take_map)
  from T [of "sample_burst 101 @ replicate 101 (Select CaseMsg)"
              sample_rt sample_chat_request sample_cfg] h1
  have r1: "sorted_wrt (<) (token_ids (written (HandleChat sample_cfg sample_rt
      sample_chat_request (sample_burst 101 @ replicate 101 (Select CaseMsg)))))"
    by blast
  from T [where cfg = sample_cfg and rt = sample_rt and r = sample_chat_request
              and k = 101 and ts = "map sample_seq [1..<Suc 101]"] c0(1) h2
  have "written (HandleChat sample_cfg sample_rt sample_chat_request
         (map (\<lambda>t. Callback (Some t) False) (map sample_seq [1..<Suc 101])
            @ replicate 101 (Select CaseMsg)))
       = written ?c0 @ map (\<lambda>t. TokenEvent (Sequence t) t)
           (take 101 (take 100 (map sample_seq [1..<Suc 101])))"
    by blast
  with c0(4) t100
  have r2: "written (HandleChat sample_cfg sample_rt sample_chat_request
         (sample_burst 101 @ replicate 101 (Select CaseMsg)))
       = ConnectedEvent ''c1'' # map (\<lambda>t. TokenEvent (Sequence t) t) (map sample_seq [1..<101])"
    by (simp add: sample_burst_def)
  have h3: "\<forall>t \<in> set (take 3 (take 100 (filter (\<lambda>t. \<not> (0 < (6::int) \<and> Sequence t \<le> 6))
      [sample_seq 6, sample_seq 7, sample_seq 8]))). \<not> Done t"
    by (simp add: sample_seq_def sample_token_def)
  from T [where rt = sample_rt and r = sample_stream_request and s = 6 and k = 3
              and ts = "[sample_seq 6, sample_seq 7, sample_seq 8]"] s0(1) s0(3) [symmetric] h3
  have "written (HandleStream sample_rt sample_stream_request
         (map (\<lambda>t. Callback (Some t) False) [sample_seq 6, sample_seq 7, sample_seq 8]
            @ replicate 3 (Select CaseMsg)))
       = written ?s0 @ map (\<lambda>t. TokenEvent (Sequence t) t)
           (take 3 (take 100 (filter (\<lambda>t. \<not> (0 < (6::int) \<and> Sequence t \<le> 6))
              [sample_seq 6, sample_seq 7, sample_seq 8])))"
    by blast
  with s0(2)
  have r3: "written (HandleStream sample_rt sample_stream_request
         (map (\<lambda>t. Callback (Some t) False) [sample_seq 6, sample_seq 7, sample_seq 8]
            @ replicate 3 (Select CaseMsg)))
       = [Comment ''connected to c1'', TokenEvent 7 (sample_seq 7), TokenEvent 8 (sample_seq 8)]"
    by (simp add: sample_seq_def)
  from chat_burst [OF c0(2) c0(1), of "map sample_seq [1..<Suc 100]"] c0(3)
  have full: "subscribed ?full" "\<not> returned ?full" "length (msgChan ?full) = 100"
    by (simp_all add: HandleChat_def sample_burst_def)
  from T [where c = ?full and h = ChatHandler and t = "sample_seq 101" and p = False] full
  have r4: "msgChan (step ChatHandler (Callback (Some (sample_seq 101)) False) ?full)
      = msgChan ?full"
    by blast
  from T [where c = ?c0 and t = "sample_seq 1" and p = False] c0
  have r5: "msgChan (step ChatHandler (Callback (Some (sample_seq 1)) False) ?c0)
      = [sample_seq 1]"
    by simp
  have one: "\<not> returned ?one" "msgChan ?one = sample_seq 1 # []"
      "written ?one = [ConnectedEvent ''c1'']" "Sequence (sample_seq 1) = 1"
    by (simp_all add: sample_burst_def sample_seq_def sample_defs setup_defs conn_defs)
  from T [where c = ?one and h = ChatHandler and t = "sample_seq 1" and rest = "[]"] one
  have r6: "written (step ChatHandler (Select CaseMsg) ?one)
      = [ConnectedEvent ''c1'', TokenEvent 1 (sample_seq 1)]"
    by simp
  from h1 r1 c0(1) r2 s0(1) r3 full(3) r4 r5 r6 show ?thesis by blast
qed


section \<open>Results: resumption\<close>

text \<open>
  C1 at a concrete request: \<^verbatim>\<open>GET /stream/c1\<close> with \<^verbatim>\<open>Last-Event-ID: 5\<close>. The start
  sequence is 6, and the filter compares with \<open>\<le>\<close>: the envelope with sequence 6, the
  first one the client has not seen, never reaches the queue and is never written; the
  stream resumes at 7.
\<close>

theorem resume_skips_next_envelope:
  "startSequence_of (Sscanf_d sample_rt) (LastEventID sample_stream_request) = 6 \<and>
   msgChan (HandleStream sample_rt sample_stream_request
      [Callback (Some (sample_token\<lparr> Sequence := 6 \<rparr>)) False]) = [] \<and>
   written (HandleStream sample_rt sample_stream_request
      [Callback (Some (sample_token\<lparr> Sequence := 6 \<rparr>)) False, Select CaseMsg,
       Callback (Some (sample_token\<lparr> Sequence := 7 \<rparr>)) False, Select CaseMsg])
     = [Comment ''connected to c1'', TokenEvent 7 (sample_token\<lparr> Sequence := 7 \<rparr>)]"
  by (simp add: sample_defs setup_defs conn_defs)


section \<open>Results: the stream proxy\<close>

text \<open>
  C4 at a concrete session: vLLM answers 200, streams one chunk with content and no
  finish reason, and the body ends without a \<^verbatim>\<open>[DONE]\<close> line. The read loop breaks on
  the read error; the one envelope published has \<open>done = false\<close>, and no terminal
  envelope follows.
\<close>

theorem stream_end_without_done:
  "streamFromLLM (\<lambda>k. 0) sample_chunk_unmarshal ''c1''
     (Response 200 (''data: {hi}'' @ [newline]))
   = [\<lparr> ConversationID = ''c1'', Token = ''Hi'', Sequence = 1, Done = False, Timestamp = 0 \<rparr>]"
  by code_simp


section \<open>Results: the loop of HandleChat\<close>

text \<open>
  C5, as the claim states it: a forwarding failure after the first token writes no error
  event and does not end the stream. Here a token is delivered, then the forwarding
  goroutine reports a failure and the loop takes it: the error event is written and the
  handler returns.
\<close>

theorem late_forwarding_failure_closes:
  "receivedFirstToken (HandleChat sample_cfg sample_rt sample_chat_request
      [Callback (Some sample_token) False, Select CaseMsg]) \<and>
   written (HandleChat sample_cfg sample_rt sample_chat_request
      [Callback (Some sample_token) False, Select CaseMsg,
       ForwardFailed ''LLM proxy error: 500'', Select CaseErr])
     = [ConnectedEvent ''c1'', TokenEvent 1 sample_token, ErrorEvent ''LLM proxy error: 500''] \<and>
   returned (HandleChat sample_cfg sample_rt sample_chat_request
      [Callback (Some sample_token) False, Select CaseMsg,
       ForwardFailed ''LLM proxy error: 500'', Select CaseErr])"
  by (simp add: sample_defs setup_defs conn_defs)

text \<open>
  C5, amended: whenever the loop of \<^verbatim>\<open>HandleChat\<close> takes a forwarding failure from the
  error channel, it writes an error event with the failure's message and the handler
  returns, so that nothing is written after it; whether a token was delivered before makes
  no difference.
\<close>

theorem forwarding_failure_closes:
  assumes "\<not> returned (HandleChat cfg rt r pre)"
    and "errChan (HandleChat cfg rt r pre) = err # rest"
  shows "written (HandleChat cfg rt r (pre @ Select CaseErr # post)) =
           written (HandleChat cfg rt r pre) @ [ErrorEvent err] \<and>
         returned (HandleChat cfg rt r (pre @ Select CaseErr # post))"
proof -
  let ?c = "HandleChat cfg rt r pre"
  let ?c' = "step ChatHandler (Select CaseErr) ?c"
  from assms have w: "written ?c' = written ?c @ [ErrorEvent err]" and r: "returned ?c'"
    by (auto simp: conn_defs frames_of_append)
  have "HandleChat cfg rt r (pre @ Select CaseErr # post) = run ChatHandler post ?c'"
    by (simp add: HandleChat_def run_append)
  with w r show ?thesis by (simp add: run_written_returned run_returned)
qed

theorem forwarding_failure_closes_witness:
  "\<not> returned (HandleChat sample_cfg sample_rt sample_chat_request
       [Callback (Some sample_token) False, Select CaseMsg, ForwardFailed ''refused'']) \<and>
   errChan (HandleChat sample_cfg sample_rt sample_chat_request
       [Callback (Some sample_token) False, Select CaseMsg, ForwardFailed ''refused''])
     = [''refused''] \<and>
   written (HandleChat sample_cfg sample_rt sample_chat_request
       ([Callback (Some sample_token) False, Select CaseMsg, ForwardFailed ''refused'']
          @ Select CaseErr # [Elapse keepAlivePeriod, TickFire, Select CaseTick]))
     = [ConnectedEvent ''c1'', TokenEvent 1 sample_token, ErrorEvent ''refused'']"
proof -
  have h1: "\<not> returned (HandleChat sample_cfg sample_rt sample_chat_request
       [Callback (Some sample_token) False, Select CaseMsg, ForwardFailed ''refused''])"
    and h2: "errChan (HandleChat sample_cfg sample_rt sample_chat_request
       [Callback (Some sample_token) False, Select CaseMsg, ForwardFailed ''refused''])
     = [''refused'']"
    and w: "written (HandleChat sample_cfg sample_rt sample_chat_request
       [Callback (Some sample_token) False, Select CaseMsg, ForwardFailed ''refused''])
     = [ConnectedEvent ''c1'', TokenEvent 1 sample_token]"
    by (simp_all add: sample_defs setup_defs conn_defs)
  from forwarding_failure_closes
         [OF h1 h2, of "[Elapse keepAlivePeriod, TickFire, Select CaseTick]"] w h1 h2
  show ?thesis by simp
qed













section \<open>Results: both loops\<close>

text \<open>
  C7: in either handler, when the loop receives an envelope with \<open>done = true\<close> it writes
  the token event for it and the handler returns; whatever happens afterwards, the frames
  written stay the same: no token, keep-alive or error event follows the terminal one.
\<close>

theorem done_closes_stream:
  assumes "\<not> returned c" and "msgChan c = token # rest" and "Done token"
  shows "written (run h (Select CaseMsg # sched) c) =
           written c @ [TokenEvent (Sequence token) token] \<and>
         returned (run h (Select CaseMsg # sched) c)"
proof -
  let ?c' = "step h (Select CaseMsg) c"
  from assms have w: "written ?c' = written c @ [TokenEvent (Sequence token) token]"
    and r: "returned ?c'"
    by (cases h; auto simp: conn_defs frames_of_append Let_def)+
  then show ?thesis by (simp add: run_written_returned run_returned)
qed

theorem done_closes_stream_witness:
  "\<not> returned (HandleStream sample_rt sample_stream_request
        [Callback (Some (sample_done\<lparr> Sequence := 7 \<rparr>)) False,
         Callback (Some (sample_token\<lparr> Sequence := 8 \<rparr>)) False]) \<and>
   Done (sample_done\<lparr> Sequence := 7 \<rparr>) \<and>
   written (run (StreamHandler 6)
      (Select CaseMsg # [Select CaseMsg, Elapse keepAlivePeriod, TickFire, Select CaseTick])
      (HandleStream sample_rt sample_stream_request
        [Callback (Some (sample_done\<lparr> Sequence := 7 \<rparr>)) False,
         Callback (Some (sample_token\<lparr> Sequence := 8 \<rparr>)) False]))
     = [Comment ''connected to c1'', TokenEvent 7 (sample_done\<lparr> Sequence := 7 \<rparr>)]"
proof -
  let ?c = "HandleStream sample_rt sample_stream_request
        [Callback (Some (sample_done\<lparr> Sequence := 7 \<rparr>)) False,
         Callback (Some (sample_token\<lparr> Sequence := 8 \<rparr>)) False]"
  have h1: "\<not> returned ?c"
    and h2: "msgChan ?c = sample_done\<lparr> Sequence := 7 \<rparr> # [sample_token\<lparr> Sequence := 8 \<rparr>]"
    and h3: "Done (sample_done\<lparr> Sequence := 7 \<rparr>)"
    and w: "written ?c = [Comment ''connected to c1'']"
    and s: "Sequence (sample_done\<lparr> Sequence := 7 \<rparr>) = 7"
    by (simp_all add: sample_defs setup_defs conn_defs)
  from done_closes_stream [OF h1 h2 h3, of "StreamHandler 6"
         "[Select CaseMsg, Elapse keepAlivePeriod, TickFire, Select CaseTick]"] w s h1 h3
  show ?thesis by simp
qed

text \<open>
  C9, as the claim states it: a ready disconnect signal is chosen over every other ready
  source. Here the request context is cancelled while an envelope waits in the queue; both
  cases of the \<^verbatim>\<open>select\<close> can proceed, the loop may take the envelope, and the token
  event is written to the client that has gone.
\<close>

theorem disconnect_not_preferred:
  "ready CaseCtx (HandleChat sample_cfg sample_rt sample_chat_request
      [Callback (Some sample_token) False, Cancel]) \<and>
   ready CaseMsg (HandleChat sample_cfg sample_rt sample_chat_request
      [Callback (Some sample_token) False, Cancel]) \<and>
   written (HandleChat sample_cfg sample_rt sample_chat_request
      [Callback (Some sample_token) False, Cancel]) = [ConnectedEvent ''c1''] \<and>
   written (HandleChat sample_cfg sample_rt sample_chat_request
      [Callback (Some sample_token) False, Cancel, Select CaseMsg])
     = [ConnectedEvent ''c1'', TokenEvent 1 sample_token]"
  by (simp add: sample_defs setup_defs conn_defs)

text \<open>
  C9, amended: in either handler the disconnect signal is one of the cases of the loop's
  \<^verbatim>\<open>select\<close> and can be taken in every iteration once the client has gone; when the loop
  takes it the handler returns, and whatever happens afterwards nothing more is written
  to the client.
\<close>

theorem disconnect_ends_writes:
  assumes "ctxDone c" and "\<not> returned c"
  shows "has_case h CaseCtx \<and> ready CaseCtx c \<and>
         returned (run h (Select CaseCtx # sched) c) \<and>
         written (run h (Select CaseCtx # sched) c) = written c"
proof -
  let ?c' = "step h (Select CaseCtx) c"
  from assms have w: "written ?c' = written c" and r: "returned ?c'" and k: "has_case h CaseCtx"
    by (cases h; auto simp: conn_defs frames_of_append)+
  with assms show ?thesis by (simp add: run_written_returned run_returned)
qed

theorem disconnect_ends_writes_witness:
  "ctxDone (HandleChat sample_cfg sample_rt sample_chat_request
       [Callback (Some sample_token) False, Cancel]) \<and>
   \<not> returned (HandleChat sample_cfg sample_rt sample_chat_request
       [Callback (Some sample_token) False, Cancel]) \<and>
   written (run ChatHandler
      (Select CaseCtx # [Select CaseMsg, Elapse keepAlivePeriod, TickFire, Select CaseTick])
      (HandleChat sample_cfg sample_rt sample_chat_request
         [Callback (Some sample_token) False, Cancel]))
     = [ConnectedEvent ''c1'']"
proof -
  have h1: "ctxDone (HandleChat sample_cfg sample_rt sample_chat_request
       [Callback (Some sample_token) False, Cancel])"
    and h2: "\<not> returned (HandleChat sample_cfg sample_rt sample_chat_request
       [Callback (Some sample_token) False, Cancel])"
    and w: "written (HandleChat sample_cfg sample_rt sample_chat_request
       [Callback (Some sample_token) False, Cancel]) = [ConnectedEvent ''c1'']"
    by (simp_all add: sample_defs setup_defs conn_defs)
  from disconnect_ends_writes [OF h1 h2, of ChatHandler
         "[Select CaseMsg, Elapse keepAlivePeriod, TickFire, Select CaseTick]"] w h1 h2
  show ?thesis by simp
qed


section \<open>Results: the set-up of HandleChat\<close>



text \<open>
  C10: the proxy URL is empty unless \<^verbatim>\<open>LLM_PROXY_URL\<close> is set. With an empty proxy URL a
  \<^verbatim>\<open>POST /chat\<close> request is answered with status 503 and nothing else happens, whatever
  the body and whatever goes on around the handler: the body is not decoded, no
  conversation id is made, no connection is counted, no subscription is opened, no channel
  receives anything and no frame is written.
\<close>

theorem chat_disabled_without_proxy:
  assumes "Method r = ''POST''" and "LLMProxyURL cfg = []"
  shows "LLMProxyURL (loadConfig parseDuration Map.empty) = [] \<and>
         trace (HandleChat cfg rt r sched) = [HttpError ''LLM proxy not configured'' 503] \<and>
         returned (HandleChat cfg rt r sched) \<and>
         \<not> subscribed (HandleChat cfg rt r sched) \<and>
         msgChan (HandleChat cfg rt r sched) = [] \<and>
         written (HandleChat cfg rt r sched) = []"
proof -
  from assms have s:
    "HandleChat_setup cfg rt r = finish [HttpError ''LLM proxy not configured'' 503]"
    by (simp add: HandleChat_setup_def)
  have "returned (finish [HttpError ''LLM proxy not configured'' 503])"
    and "\<not> subscribed (finish [HttpError ''LLM proxy not configured'' 503])"
    by (simp_all add: finish_def fresh_def)
  from run_trace_unsubscribed [OF this, of ChatHandler sched] s
  show ?thesis
    by (simp add: HandleChat_def written_def finish_def fresh_def loadConfig_def getEnv_def
        Getenv_def)
qed

theorem chat_disabled_without_proxy_witness:
  "Method sample_chat_request = ''POST'' \<and>
   LLMProxyURL (loadConfig (\<lambda>s. None) Map.empty) = [] \<and>
   trace (HandleChat (loadConfig (\<lambda>s. None) Map.empty) sample_rt sample_chat_request
            [Callback (Some sample_token) False, Select CaseMsg, TickFire, Select CaseTick])
     = [HttpError ''LLM proxy not configured'' 503]"
proof -
  have h1: "Method sample_chat_request = ''POST''" by (simp add: sample_defs)
  have h2: "LLMProxyURL (loadConfig (\<lambda>s. None) Map.empty) = []" by (simp add: sample_defs)
  from chat_disabled_without_proxy [OF h1 h2] h1 h2 show ?thesis by blast
qed

end
